theory Spec2Isabelle
  imports Main
begin

section \<open>Data model of the conversation notification bar\<close>

text \<open>
  Modelled from the spec: the \<open>Notification\<close> type comes from the hook
  \<open>use-notifications\<close>, whose declaration is not among the sources. The fields
  below are the ones \<open>processNotifications\<close> reads, with the optionality the spec's
  data model gives them. An absent (\<open>null\<close> or \<open>undefined\<close>) value is \<open>None\<close>.
\<close>

record conversation =
  c_type :: string
  c_name :: "string option"

record actor =
  a_name :: string
  a_imageUrl :: string

record notification =
  n_id :: string
  n_type :: string
  n_read :: bool
  n_conversationId :: "string option"
  n_conversation :: "conversation option"
  n_triggeredBy :: "actor option"
  n_profileId :: string

text \<open>
  The signed-in user as \<open>useUser\<close> returns it: the user itself may be absent, and
  so may each of the two names that the component compares against.
\<close>

record clerk_user =
  fullName :: "string option"
  firstName :: "string option"

text \<open>
  \<open>interface ConversationParticipant\<close>. The counter is a JavaScript number that
  starts at 1 and only ever grows by 1, so it is a natural number here.
\<close>

record ConversationParticipant =
  conversationId :: string
  profileId :: string
  name :: string
  imageUrl :: string
  unreadCount :: nat
  conversationType :: string

section \<open>The insertion-ordered map\<close>

text \<open>
  \<open>new Map<string, ConversationParticipant>()\<close> keeps its keys in the order of
  their first insertion, and \<open>values()\<close> iterates in that order. It is an association
  list here: \<open>map_get\<close> is \<open>Map.get\<close>, \<open>map_set\<close> is \<open>Map.set\<close> (a new key goes to
  the end, a known key keeps its place), \<open>map_values\<close> is \<open>Array.from(m.values())\<close>.
  \<open>existing.unreadCount += 1\<close> mutates the object that the map holds, which is
  \<open>map_increment\<close>.
\<close>

type_synonym conversationMap = "(string \<times> ConversationParticipant) list"

definition map_get :: "conversationMap \<Rightarrow> string \<Rightarrow> ConversationParticipant option" where
  "map_get m k = map_of m k"

definition map_set :: "string \<Rightarrow> ConversationParticipant \<Rightarrow> conversationMap \<Rightarrow> conversationMap" where
  "map_set k v m =
     (case map_of m k of
        None \<Rightarrow> m @ [(k, v)]
      | Some _ \<Rightarrow> map (\<lambda>(k', v'). if k' = k then (k', v) else (k', v')) m)"

definition map_increment :: "string \<Rightarrow> conversationMap \<Rightarrow> conversationMap" where
  "map_increment k m =
     map (\<lambda>(k', v'). if k' = k then (k', v'\<lparr>unreadCount := unreadCount v' + 1\<rparr>) else (k', v')) m"

definition map_values :: "conversationMap \<Rightarrow> ConversationParticipant list" where
  "map_values m = map snd m"

section \<open>processNotifications\<close>

text \<open>
  The filter \<open>n.conversationId && !n.read && n.type === "MESSAGE"\<close>. A string is
  truthy when it is present and not empty.
\<close>

definition truthy :: "string option \<Rightarrow> bool" where
  "truthy s = (case s of None \<Rightarrow> False | Some t \<Rightarrow> t \<noteq> [])"

definition filter_pred :: "notification \<Rightarrow> bool" where
  "filter_pred n = (truthy (n_conversationId n) \<and> \<not> n_read n \<and> n_type n = ''MESSAGE'')"

text \<open>\<open>notification.conversation?.type === "GROUP_MESSAGE"\<close>\<close>

definition is_group :: "notification \<Rightarrow> bool" where
  "is_group n = (case n_conversation n of None \<Rightarrow> False | Some c \<Rightarrow> c_type c = ''GROUP_MESSAGE'')"

text \<open>\<open>notification.conversation.name || "Group Chat"\<close>\<close>

definition group_name :: "notification \<Rightarrow> string" where
  "group_name n =
     (case n_conversation n of
        None \<Rightarrow> ''Group Chat''
      | Some c \<Rightarrow>
          (case c_name c of
             None \<Rightarrow> ''Group Chat''
           | Some s \<Rightarrow> if s = [] then ''Group Chat'' else s))"

text \<open>
  \<open>user?.fullName\<close> and \<open>user?.firstName\<close>: absent when the user is. The strict
  inequality \<open>name !== x\<close> of a string and an absent value is true.
\<close>

definition user_fullName :: "clerk_user option \<Rightarrow> string option" where
  "user_fullName u = (case u of None \<Rightarrow> None | Some v \<Rightarrow> fullName v)"

definition user_firstName :: "clerk_user option \<Rightarrow> string option" where
  "user_firstName u = (case u of None \<Rightarrow> None | Some v \<Rightarrow> firstName v)"

definition direct_ok :: "clerk_user option \<Rightarrow> notification \<Rightarrow> bool" where
  "direct_ok u n =
     (case n_triggeredBy n of
        None \<Rightarrow> False
      | Some t \<Rightarrow> Some (a_name t) \<noteq> user_fullName u \<and> Some (a_name t) \<noteq> user_firstName u)"

definition group_participant :: "string \<Rightarrow> notification \<Rightarrow> ConversationParticipant" where
  "group_participant cid n =
     \<lparr>conversationId = cid, profileId = '''', name = group_name n, imageUrl = '''',
      unreadCount = 1, conversationType = ''GROUP_MESSAGE''\<rparr>"

definition direct_participant :: "string \<Rightarrow> notification \<Rightarrow> actor \<Rightarrow> ConversationParticipant" where
  "direct_participant cid n t =
     \<lparr>conversationId = cid, profileId = n_profileId n, name = a_name t, imageUrl = a_imageUrl t,
      unreadCount = 1, conversationType = ''DIRECT_MESSAGE''\<rparr>"

text \<open>
  The body of the \<open>forEach\<close>, as a function from the map before to the map after.
  The key is \<open>notification.conversationId!\<close>; the filter has let only notifications
  with a conversation id through, so the first case never runs inside
  \<open>processNotifications\<close>.
\<close>

definition forEach_body :: "clerk_user option \<Rightarrow> conversationMap \<Rightarrow> notification \<Rightarrow> conversationMap" where
  "forEach_body u m n =
     (case n_conversationId n of
        None \<Rightarrow> m
      | Some cid \<Rightarrow>
          if is_group n then
            (case map_get m cid of
               Some existing \<Rightarrow> map_increment cid m
             | None \<Rightarrow> map_set cid (group_participant cid n) m)
          else
            (case n_triggeredBy n of
               None \<Rightarrow> m
             | Some t \<Rightarrow>
                 if Some (a_name t) \<noteq> user_fullName u \<and> Some (a_name t) \<noteq> user_firstName u then
                   (case map_get m cid of
                      Some existing \<Rightarrow> map_increment cid m
                    | None \<Rightarrow> map_set cid (direct_participant cid n t) m)
                 else m))"

text \<open>
  \<open>processNotifications\<close> reads \<open>notifications\<close> and \<open>user\<close> and hands the list
  below to \<open>setParticipants\<close>.
\<close>

definition processNotifications :: "notification list \<Rightarrow> clerk_user option \<Rightarrow> ConversationParticipant list" where
  "processNotifications ns u = map_values (foldl (forEach_body u) [] (filter filter_pred ns))"

section \<open>The state of the bar and its handlers\<close>

text \<open>
  The outcome of \<open>fetch\<close>: a response with \<open>ok\<close>, a response without it, or a
  rejected promise.
\<close>

datatype fetch_result = ResponseOk | ResponseNotOk | NetworkError

text \<open>
  A request that has been sent and has not settled. \<open>handleConversationClick\<close> is a
  closure of the render in which the click happened, so the \<open>processNotifications\<close>
  it calls in its \<open>catch\<close> block reads the \<open>notifications\<close> and \<open>user\<close> of that
  render; the request carries them.
\<close>

record pending_request =
  pr_conversationId :: string
  pr_notifications :: "notification list"
  pr_user :: "clerk_user option"

text \<open>
  The two \<open>useState\<close> cells, the values of the hooks, and what the component has done
  to the outside: \<open>posted\<close> lists the conversation ids of the POST requests sent,
  \<open>pushed\<close> the paths given to \<open>router.push\<close>. Each handler runs on the state of the
  latest render.
\<close>

record bar_state =
  notifications :: "notification list"
  user :: "clerk_user option"
  participants :: "ConversationParticipant list"
  clickingConversation :: "string option"
  pending :: "pending_request list"
  posted :: "string list"
  pushed :: "string list"

text \<open>
  The effect on \<open>[notifications, user]\<close>: it runs \<open>processNotifications\<close> after the
  first render and whenever one of the two changes.
\<close>

definition mount :: "notification list \<Rightarrow> clerk_user option \<Rightarrow> bar_state" where
  "mount ns u =
     \<lparr>notifications = ns, user = u, participants = processNotifications ns u,
      clickingConversation = None, pending = [], posted = [], pushed = []\<rparr>"

definition notifications_changed :: "notification list \<Rightarrow> clerk_user option \<Rightarrow> bar_state \<Rightarrow> bar_state" where
  "notifications_changed ns u s =
     s\<lparr>notifications := ns, user := u, participants := processNotifications ns u\<rparr>"

text \<open>The payload of \<open>conversation:marked-as-read\<close> and its handler.\<close>

record marked_read_data =
  mr_conversationId :: string
  mr_profileId :: string

definition handleConversationMarkRead :: "marked_read_data \<Rightarrow> bar_state \<Rightarrow> bar_state" where
  "handleConversationMarkRead d s =
     s\<lparr>participants := filter (\<lambda>p. conversationId p \<noteq> mr_conversationId d) (participants s)\<rparr>"

text \<open>
  \<open>handleConversationClick\<close> up to its \<open>await fetch\<close>: the guard, the two state
  updates and the request.
\<close>

definition handleConversationClick :: "string \<Rightarrow> bar_state \<Rightarrow> bar_state" where
  "handleConversationClick c s =
     (if clickingConversation s = Some c then s
      else s\<lparr>clickingConversation := Some c,
             participants := filter (\<lambda>p. conversationId p \<noteq> c) (participants s),
             pending := pending s @
               [\<lparr>pr_conversationId = c, pr_notifications = notifications s, pr_user = user s\<rparr>],
             posted := posted s @ [c]\<rparr>)"

text \<open>
  The rest of \<open>handleConversationClick\<close>, run when the \<open>i\<close>-th pending request
  settles: \<open>router.push\<close> after a response with \<open>ok\<close>; the \<open>catch\<close> block after a
  response without it (the \<open>throw\<close>) or a rejected \<open>fetch\<close>; the \<open>finally\<close> block in
  every case. There is nothing to settle when \<open>i\<close> is not a pending request.
\<close>

definition fetch_settled :: "nat \<Rightarrow> fetch_result \<Rightarrow> bar_state \<Rightarrow> bar_state" where
  "fetch_settled i r s =
     (if i < length (pending s) then
        let rq = pending s ! i;
            s1 = s\<lparr>pending := take i (pending s) @ drop (Suc i) (pending s)\<rparr>;
            s2 = (case r of
                    ResponseOk \<Rightarrow> s1\<lparr>pushed := pushed s1 @ [''/conversations/'' @ pr_conversationId rq]\<rparr>
                  | ResponseNotOk \<Rightarrow>
                      s1\<lparr>participants := processNotifications (pr_notifications rq) (pr_user rq)\<rparr>
                  | NetworkError \<Rightarrow>
                      s1\<lparr>participants := processNotifications (pr_notifications rq) (pr_user rq)\<rparr>)
        in s2\<lparr>clickingConversation := None\<rparr>
      else s)"

text \<open>
  The rendered buttons: one per participant, \<open>disabled\<close> while
  \<open>clickingConversation\<close> is its conversation, with \<open>handleConversationClick\<close> as
  \<open>onClick\<close>. A click on a button that is not there or is disabled does nothing.
\<close>

definition click_button :: "string \<Rightarrow> bar_state \<Rightarrow> bar_state" where
  "click_button c s =
     (if c \<in> set (map conversationId (participants s)) \<and> clickingConversation s \<noteq> Some c
      then handleConversationClick c s else s)"

text \<open>What can happen to the mounted component, and a run of such events in order.\<close>

datatype event =
    Click string
  | Settle nat fetch_result
  | MarkedRead marked_read_data
  | NotificationsChanged "notification list" "clerk_user option"

fun step :: "bar_state \<Rightarrow> event \<Rightarrow> bar_state" where
  "step s (Click c) = click_button c s"
| "step s (Settle i r) = fetch_settled i r s"
| "step s (MarkedRead d) = handleConversationMarkRead d s"
| "step s (NotificationsChanged ns u) = notifications_changed ns u s"

definition run :: "event list \<Rightarrow> bar_state \<Rightarrow> bar_state" where
  "run evs s = foldl step s evs"

section \<open>The unread counter of the top navigation bar\<close>

text \<open>
  \<open>notifications\<close> and \<open>unreadCount\<close> of \<open>TopNavigation\<close>. The counter is a
  JavaScript number; it is an integer here so that \<open>prev - 1\<close> can go below zero and
  \<open>Math.max\<close> has something to do.
\<close>

record nav_state =
  nav_notifications :: "notification list"
  nav_unreadCount :: int

text \<open>
  \<open>markAsRead\<close> and \<open>markAllAsRead\<close> do not look at the response: the state
  updates run whenever \<open>fetch\<close> resolves, and are skipped when it rejects.
\<close>

definition markAsRead :: "string \<Rightarrow> fetch_result \<Rightarrow> nav_state \<Rightarrow> nav_state" where
  "markAsRead notificationId r s =
     (case r of
        NetworkError \<Rightarrow> s
      | _ \<Rightarrow> s\<lparr>nav_notifications :=
                 map (\<lambda>n. if n_id n = notificationId then n\<lparr>n_read := True\<rparr> else n) (nav_notifications s),
               nav_unreadCount := max 0 (nav_unreadCount s - 1)\<rparr>)"

definition markAllAsRead :: "fetch_result \<Rightarrow> nav_state \<Rightarrow> nav_state" where
  "markAllAsRead r s =
     (case r of
        NetworkError \<Rightarrow> s
      | _ \<Rightarrow> s\<lparr>nav_notifications := map (\<lambda>n. n\<lparr>n_read := True\<rparr>) (nav_notifications s),
               nav_unreadCount := 0\<rparr>)"

datatype nav_call = MarkAsRead string fetch_result | MarkAllAsRead fetch_result

fun nav_step :: "nav_state \<Rightarrow> nav_call \<Rightarrow> nav_state" where
  "nav_step s (MarkAsRead i r) = markAsRead i r s"
| "nav_step s (MarkAllAsRead r) = markAllAsRead r s"

definition nav_run :: "nav_call list \<Rightarrow> nav_state \<Rightarrow> nav_state" where
  "nav_run calls s = foldl nav_step s calls"

section \<open>Notions used to state the properties\<close>

text \<open>
  A notification qualifies when it passes the filter and its branch of the loop body
  touches the map: every group message does, a direct message does when
  \<open>direct_ok\<close> holds. \<open>qualifying_ids\<close> lists the conversation ids of the qualifying
  notifications in input order, and \<open>first_occurrences\<close> keeps the first occurrence
  of each element of a list.
\<close>

definition qualifies :: "clerk_user option \<Rightarrow> notification \<Rightarrow> bool" where
  "qualifies u n = (filter_pred n \<and> (is_group n \<or> direct_ok u n))"

definition qualifying_ids :: "clerk_user option \<Rightarrow> notification list \<Rightarrow> string list" where
  "qualifying_ids u ns = List.map_filter (\<lambda>n. if qualifies u n then n_conversationId n else None) ns"

fun first_occurrences :: "'a list \<Rightarrow> 'a list" where
  "first_occurrences [] = []"
| "first_occurrences (x # xs) = x # filter (\<lambda>y. y \<noteq> x) (first_occurrences xs)"

text \<open>
  The events that leave the guard on conversation \<open>c\<close> where it is: a click on the
  button of \<open>c\<close> itself, a \<open>conversation:marked-as-read\<close> message and a change of the
  notifications or the user. A click on another conversation and the settlement of a
  request are the two that do not.
\<close>

fun keeps_guard :: "string \<Rightarrow> event \<Rightarrow> bool" where
  "keeps_guard c (Click c') = (c' = c)"
| "keeps_guard c (Settle i r) = False"
| "keeps_guard c (MarkedRead d) = True"
| "keeps_guard c (NotificationsChanged ns u) = True"

text \<open>
  The invariant of the loop: the keys of the map are distinct, every entry is stored
  under its own conversation id, and every counter is at least 1.
\<close>

definition entry_ok :: "string \<times> ConversationParticipant \<Rightarrow> bool" where
  "entry_ok e = (conversationId (snd e) = fst e \<and> 1 \<le> unreadCount (snd e))"

definition map_inv :: "conversationMap \<Rightarrow> bool" where
  "map_inv m = (distinct (map fst m) \<and> list_all entry_ok m)"

section \<open>Sample data\<close>

definition group_message :: "string \<Rightarrow> string \<Rightarrow> string option \<Rightarrow> notification" where
  "group_message i c nm =
     \<lparr>n_id = i, n_type = ''MESSAGE'', n_read = False, n_conversationId = Some c,
      n_conversation = Some \<lparr>c_type = ''GROUP_MESSAGE'', c_name = nm\<rparr>,
      n_triggeredBy = None, n_profileId = ''p0''\<rparr>"

definition direct_message :: "string \<Rightarrow> string \<Rightarrow> string \<Rightarrow> notification" where
  "direct_message i c sender =
     \<lparr>n_id = i, n_type = ''MESSAGE'', n_read = False, n_conversationId = Some c,
      n_conversation = Some \<lparr>c_type = ''DIRECT_MESSAGE'', c_name = None\<rparr>,
      n_triggeredBy = Some \<lparr>a_name = sender, a_imageUrl = ''/img.png''\<rparr>, n_profileId = ''p1''\<rparr>"

definition mention :: "string \<Rightarrow> notification" where
  "mention i =
     \<lparr>n_id = i, n_type = ''MENTION'', n_read = True, n_conversationId = None,
      n_conversation = None, n_triggeredBy = None, n_profileId = ''p2''\<rparr>"

definition ada :: "clerk_user option" where
  "ada = Some \<lparr>fullName = Some ''Ada Lovelace'', firstName = Some ''Ada''\<rparr>"

definition sample_notifications :: "notification list" where
  "sample_notifications =
     [group_message ''1'' ''c1'' (Some ''Team''), direct_message ''2'' ''c2'' ''Bob'',
      direct_message ''3'' ''c3'' ''Ada'', group_message ''4'' ''c1'' None,
      direct_message ''5'' ''c2'' ''Bob'', mention ''6'']"

definition two_groups :: bar_state where
  "two_groups = mount [group_message ''1'' ''c1'' (Some ''Team''), group_message ''2'' ''c2'' None] None"

definition opened_c1 :: bar_state where
  "opened_c1 = handleConversationClick ''c1'' two_groups"

definition interleaved :: bar_state where
  "interleaved = run [Click ''c1'', Click ''c2'', Settle 1 NetworkError] two_groups"

definition empty_nav :: nav_state where
  "empty_nav = \<lparr>nav_notifications = [], nav_unreadCount = 0\<rparr>"

definition three_unread :: nav_state where
  "three_unread = \<lparr>nav_notifications = [mention ''n1'', mention ''n2''], nav_unreadCount = 3\<rparr>"

definition reshown :: "event list" where
  "reshown = [NotificationsChanged (notifications two_groups) None, Click ''c1'',
      MarkedRead \<lparr>mr_conversationId = ''c2'', mr_profileId = ''p0''\<rparr>, Click ''c1'']"

section \<open>The loop invariant\<close>

lemma map_get_None_iff: "map_get m k = None \<longleftrightarrow> k \<notin> set (map fst m)"
  by (simp add: map_get_def map_of_eq_None_iff)

lemma keys_map_increment: "map fst (map_increment k m) = map fst m"
  by (induction m) (auto simp: map_increment_def)

lemma keys_map_set:
  "map fst (map_set k v m) = (if k \<in> set (map fst m) then map fst m else map fst m @ [k])"
proof (cases "map_of m k")
  case None
  then have "k \<notin> set (map fst m)" by (simp add: map_of_eq_None_iff)
  with None show ?thesis by (simp add: map_set_def)
next
  case (Some a)
  then have "k \<in> set (map fst m)" by (metis map_of_eq_None_iff option.distinct(1) set_map)
  moreover have "map fst (map (\<lambda>(k', v'). if k' = k then (k', v) else (k', v')) m) = map fst m"
    by (induction m) auto
  ultimately show ?thesis using Some by (simp add: map_set_def)
qed

lemma list_all_map_increment: "list_all entry_ok m \<Longrightarrow> list_all entry_ok (map_increment j m)"
  by (induction m) (auto simp: map_increment_def entry_ok_def)

lemma map_inv_increment: "map_inv m \<Longrightarrow> map_inv (map_increment k m)"
  by (simp add: map_inv_def keys_map_increment list_all_map_increment)

lemma map_inv_set_new:
  assumes "map_inv m" and "map_get m k = None" and "conversationId v = k" and "1 \<le> unreadCount v"
  shows "map_inv (map_set k v m)"
proof -
  from assms(2) have new: "k \<notin> set (map fst m)" by (simp add: map_get_None_iff)
  from assms(2) have "map_set k v m = m @ [(k, v)]" by (simp add: map_set_def map_get_def)
  with assms new show ?thesis by (simp add: map_inv_def entry_ok_def)
qed

lemma map_inv_forEach_body: "map_inv m \<Longrightarrow> map_inv (forEach_body u m n)"
  by (auto simp: forEach_body_def map_inv_increment map_inv_set_new
      group_participant_def direct_participant_def split: option.splits)

lemma map_inv_foldl: "map_inv m \<Longrightarrow> map_inv (foldl (forEach_body u) m ns)"
  by (induction ns arbitrary: m) (simp_all add: map_inv_forEach_body)

lemma map_inv_Nil: "map_inv []"
  by (simp add: map_inv_def)

lemma map_inv_keys: "map_inv m \<Longrightarrow> map conversationId (map_values m) = map fst m"
  by (induction m) (auto simp: map_inv_def map_values_def entry_ok_def)

lemma map_inv_values:
  assumes "map_inv m"
  shows "distinct (map conversationId (map_values m)) \<and> (\<forall>p \<in> set (map_values m). 1 \<le> unreadCount p)"
proof
  from assms show "distinct (map conversationId (map_values m))"
    by (simp add: map_inv_keys) (simp add: map_inv_def)
  from assms have "list_all entry_ok m" by (simp add: map_inv_def)
  then show "\<forall>p \<in> set (map_values m). 1 \<le> unreadCount p"
    by (auto simp: map_values_def list_all_iff entry_ok_def)
qed

text \<open>
  Claim C1. For every notification list and every current user, the list that
  \<open>processNotifications\<close> hands to \<open>setParticipants\<close> has no two entries with the same
  \<open>conversationId\<close>, and the \<open>unreadCount\<close> of every entry is at least 1.
\<close>

theorem processNotifications_unique_positive: "distinct (map conversationId (processNotifications ns u)) \<and>
   (\<forall>p \<in> set (processNotifications ns u). 1 \<le> unreadCount p)"
  unfolding processNotifications_def
  by (rule map_inv_values) (simp add: map_inv_foldl map_inv_Nil)

theorem processNotifications_unique_positive_witness:
  "map conversationId (processNotifications sample_notifications ada) = [''c1'', ''c2'']
   \<and> distinct (map conversationId (processNotifications sample_notifications ada))
   \<and> map unreadCount (processNotifications sample_notifications ada) = [2, 2]
   \<and> 1 \<le> unreadCount (processNotifications sample_notifications ada ! 0)
   \<and> 1 \<le> unreadCount (processNotifications sample_notifications ada ! 1)"
proof -
  have ids: "map conversationId (processNotifications sample_notifications ada) = [''c1'', ''c2'']"
    by code_simp
  have counts: "map unreadCount (processNotifications sample_notifications ada) = [2, 2]"
    by code_simp
  from ids have len: "length (processNotifications sample_notifications ada) = 2"
    by (metis length_map length_Cons list.size(3) numeral_2_eq_2)
  from processNotifications_unique_positive [of sample_notifications ada] ids counts len
  show ?thesis by simp
qed

section \<open>Notifications that leave the map alone\<close>

lemma forEach_body_skip: "\<not> is_group n \<Longrightarrow> \<not> direct_ok u n \<Longrightarrow> forEach_body u m n = m"
  by (auto simp: forEach_body_def direct_ok_def split: option.splits)

lemma processNotifications_drop_filtered:
  "\<not> filter_pred n \<Longrightarrow> processNotifications (xs @ n # ys) u = processNotifications (xs @ ys) u"
  by (simp add: processNotifications_def)

lemma processNotifications_drop_skipped:
  assumes "\<not> is_group n" and "\<not> direct_ok u n"
  shows "processNotifications (xs @ n # ys) u = processNotifications (xs @ ys) u"
proof (cases "filter_pred n")
  case False
  then show ?thesis by (rule processNotifications_drop_filtered)
next
  case True
  then have "filter filter_pred (xs @ n # ys) = filter filter_pred xs @ n # filter filter_pred ys"
    by simp
  with assms show ?thesis by (simp add: processNotifications_def forEach_body_skip)
qed

text \<open>
  Claim C6. A notification whose type is not \<open>MESSAGE\<close>, or that is read, or that has no
  conversation id, contributes nothing: wherever it stands in the input, the result is the
  one computed from the input without it, so it creates no summary and increments no
  counter.
\<close>

theorem excluded_notifications_contribute_nothing:
  assumes "n_type n \<noteq> ''MESSAGE'' \<or> n_read n \<or> n_conversationId n = None"
  shows "processNotifications (xs @ n # ys) u = processNotifications (xs @ ys) u"
proof -
  from assms have "\<not> filter_pred n" by (auto simp: filter_pred_def truthy_def)
  then show ?thesis by (rule processNotifications_drop_filtered)
qed

theorem excluded_notifications_contribute_nothing_witness:
  "processNotifications ([group_message ''1'' ''c1'' None] @ mention ''2'' # [group_message ''3'' ''c1'' None]) ada
   = processNotifications ([group_message ''1'' ''c1'' None] @ [group_message ''3'' ''c1'' None]) ada
   \<and> n_type (mention ''2'') \<noteq> ''MESSAGE'' \<and> n_read (mention ''2'') \<and> n_conversationId (mention ''2'') = None
   \<and> map unreadCount (processNotifications ([group_message ''1'' ''c1'' None] @ mention ''2'' # [group_message ''3'' ''c1'' None]) ada) = [2]"
proof -
  have h: "n_type (mention ''2'') \<noteq> ''MESSAGE'' \<or> n_read (mention ''2'') \<or> n_conversationId (mention ''2'') = None"
    by (simp add: mention_def)
  have "map unreadCount (processNotifications ([group_message ''1'' ''c1'' None] @ [group_message ''3'' ''c1'' None]) ada) = [2]"
    by code_simp
  with excluded_notifications_contribute_nothing [OF h, of "[group_message ''1'' ''c1'' None]" "[group_message ''3'' ''c1'' None]" ada]
  show ?thesis by (simp add: mention_def)
qed

text \<open>
  Claim C5. A notification of the direct-message branch (its conversation is not a
  \<open>GROUP_MESSAGE\<close>) whose \<open>triggeredBy\<close> is absent, or whose \<open>triggeredBy.name\<close> is the
  current user's full name or first name, is left out: the result is the one computed
  from the input without it. So such a notification is part of a summary only if
  \<open>triggeredBy\<close> is present and its name differs from both names of the user.
\<close>

theorem self_notifications_excluded:
  assumes "\<not> is_group n"
    and "n_triggeredBy n = None
         \<or> (\<exists>t. n_triggeredBy n = Some t
                \<and> (user_fullName u = Some (a_name t) \<or> user_firstName u = Some (a_name t)))"
  shows "processNotifications (xs @ n # ys) u = processNotifications (xs @ ys) u"
proof -
  from assms(2) have "\<not> direct_ok u n" by (auto simp: direct_ok_def)
  with assms(1) show ?thesis by (rule processNotifications_drop_skipped)
qed

theorem self_notifications_excluded_witness:
  "\<not> is_group (direct_message ''3'' ''c3'' ''Ada'')
   \<and> user_firstName ada = Some ''Ada''
   \<and> processNotifications ([] @ direct_message ''3'' ''c3'' ''Ada'' # []) ada = []
   \<and> processNotifications ([direct_message ''2'' ''c3'' ''Bob''] @ direct_message ''3'' ''c3'' ''Ada'' # []) ada
       = processNotifications [direct_message ''2'' ''c3'' ''Bob''] ada"
proof -
  let ?n = "direct_message ''3'' ''c3'' ''Ada''"
  have h1: "\<not> is_group ?n" by (simp add: direct_message_def is_group_def)
  have fn: "user_firstName ada = Some ''Ada''" by (simp add: ada_def user_firstName_def)
  have h2: "n_triggeredBy ?n = None
         \<or> (\<exists>t. n_triggeredBy ?n = Some t
                \<and> (user_fullName ada = Some (a_name t) \<or> user_firstName ada = Some (a_name t)))"
    by (simp add: direct_message_def fn)
  have e: "processNotifications [] ada = []" by (simp add: processNotifications_def map_values_def)
  from self_notifications_excluded [OF h1 h2, of "[]" "[]"]
       self_notifications_excluded [OF h1 h2, of "[direct_message ''2'' ''c3'' ''Bob'']" "[]"]
       h1 fn e
  show ?thesis by simp
qed

section \<open>Two messages of one group conversation\<close>

text \<open>
  Claim C4. Two unread \<open>MESSAGE\<close> notifications of the same conversation, both with
  conversation type \<open>GROUP_MESSAGE\<close>, give exactly one summary: conversation type
  \<open>GROUP_MESSAGE\<close>, the name of the first notification's conversation (\<open>Group Chat\<close>
  when that name is absent or empty), empty profile id and image, and \<open>unreadCount\<close> 2.
  The conversation id is one that the filter accepts, that is, a non-empty string.
\<close>

theorem two_group_messages_one_summary:
  assumes "n_type n1 = ''MESSAGE''" and "\<not> n_read n1" and "n_conversationId n1 = Some c"
    and "n_conversation n1 = Some cv1" and "c_type cv1 = ''GROUP_MESSAGE''"
    and "n_type n2 = ''MESSAGE''" and "\<not> n_read n2" and "n_conversationId n2 = Some c"
    and "n_conversation n2 = Some cv2" and "c_type cv2 = ''GROUP_MESSAGE''"
    and "c \<noteq> []"
  shows "processNotifications [n1, n2] u =
     [\<lparr>conversationId = c, profileId = [],
       name = (case c_name cv1 of None \<Rightarrow> ''Group Chat'' | Some s \<Rightarrow> if s = [] then ''Group Chat'' else s),
       imageUrl = [], unreadCount = 2, conversationType = ''GROUP_MESSAGE''\<rparr>]"
proof -
  from assms have fp: "filter_pred n1" "filter_pred n2" by (simp_all add: filter_pred_def truthy_def)
  from assms have g: "is_group n1" "is_group n2" by (simp_all add: is_group_def)
  let ?p = "group_participant c n1"
  from assms g have one: "forEach_body u [] n1 = [(c, ?p)]"
    by (simp add: forEach_body_def map_get_def map_set_def)
  from assms g have two: "forEach_body u [(c, ?p)] n2 = [(c, ?p\<lparr>unreadCount := unreadCount ?p + 1\<rparr>)]"
    by (simp add: forEach_body_def map_get_def map_increment_def)
  from fp one two have "processNotifications [n1, n2] u = [?p\<lparr>unreadCount := unreadCount ?p + 1\<rparr>]"
    by (simp add: processNotifications_def map_values_def)
  with assms show ?thesis by (simp add: group_participant_def group_name_def)
qed

theorem two_group_messages_one_summary_witness:
  "processNotifications [group_message ''1'' ''c1'' (Some ''Team''), group_message ''2'' ''c1'' (Some ''Team'')] None
   = [\<lparr>conversationId = ''c1'', profileId = [], name = ''Team'', imageUrl = [],
       unreadCount = 2, conversationType = ''GROUP_MESSAGE''\<rparr>]"
  using two_group_messages_one_summary
    [of "group_message ''1'' ''c1'' (Some ''Team'')" "''c1''" "\<lparr>c_type = ''GROUP_MESSAGE'', c_name = Some ''Team''\<rparr>"
        "group_message ''2'' ''c1'' (Some ''Team'')" "\<lparr>c_type = ''GROUP_MESSAGE'', c_name = Some ''Team''\<rparr>" None]
  by (simp add: group_message_def)

section \<open>The order of the summaries\<close>

lemma keys_forEach_body:
  assumes "n_conversationId n = Some k"
  shows "map fst (forEach_body u m n) =
     (if (is_group n \<or> direct_ok u n) \<and> k \<notin> set (map fst m) then map fst m @ [k] else map fst m)"
proof (cases "is_group n \<or> direct_ok u n")
  case False
  then show ?thesis by (simp add: forEach_body_skip)
next
  case True
  show ?thesis
  proof (cases "map_get m k")
    case None
    then have "k \<notin> set (map fst m)" by (simp add: map_get_None_iff)
    with None True assms show ?thesis
      by (auto simp: forEach_body_def direct_ok_def keys_map_set split: option.splits)
  next
    case (Some e)
    then have "k \<in> set (map fst m)" using map_get_None_iff [of m k] by simp
    with Some True assms show ?thesis
      by (auto simp: forEach_body_def direct_ok_def keys_map_increment split: option.splits)
  qed
qed

lemma filter_pred_has_id: "filter_pred n \<Longrightarrow> \<exists>k. n_conversationId n = Some k"
  by (auto simp: filter_pred_def truthy_def split: option.splits)

lemma keys_foldl:
  "list_all filter_pred ns \<Longrightarrow>
   map fst (foldl (forEach_body u) m ns) =
     map fst m @ filter (\<lambda>k. k \<notin> set (map fst m)) (first_occurrences (qualifying_ids u ns))"
proof (induction ns arbitrary: m)
  case Nil
  then show ?case by (simp add: qualifying_ids_def map_filter_simps)
next
  case (Cons n ns)
  from Cons.prems have fp: "filter_pred n" and rest: "list_all filter_pred ns" by simp_all
  from fp obtain k where k: "n_conversationId n = Some k" using filter_pred_has_id by blast
  let ?m' = "forEach_body u m n"
  have IH: "map fst (foldl (forEach_body u) ?m' ns) =
     map fst ?m' @ filter (\<lambda>k. k \<notin> set (map fst ?m')) (first_occurrences (qualifying_ids u ns))"
    using Cons.IH [OF rest] .
  show ?case
  proof (cases "is_group n \<or> direct_ok u n")
    case False
    then have "?m' = m" by (simp add: forEach_body_skip)
    moreover from False have "qualifying_ids u (n # ns) = qualifying_ids u ns"
      by (simp add: qualifying_ids_def qualifies_def map_filter_simps)
    ultimately show ?thesis using IH by simp
  next
    case True
    with fp k have q: "qualifying_ids u (n # ns) = k # qualifying_ids u ns"
      by (simp add: qualifying_ids_def qualifies_def map_filter_simps)
    show ?thesis
    proof (cases "k \<in> set (map fst m)")
      case True
      then have "map fst ?m' = map fst m" using keys_forEach_body [OF k, of u m] by simp
      moreover from True have "(\<lambda>x. x \<noteq> k \<and> x \<notin> set (map fst m)) = (\<lambda>x. x \<notin> set (map fst m))"
        by auto
      ultimately show ?thesis using IH True by (simp add: q)
    next
      case False
      with \<open>is_group n \<or> direct_ok u n\<close> have "map fst ?m' = map fst m @ [k]"
        using keys_forEach_body [OF k, of u m] by simp
      moreover have "(\<lambda>x. x \<noteq> k \<and> x \<notin> set (map fst m)) = (\<lambda>x. x \<notin> set (map fst m) \<and> x \<noteq> k)"
        by auto
      ultimately show ?thesis using IH False by (simp add: q)
    qed
  qed
qed

lemma qualifying_ids_filter: "qualifying_ids u (filter filter_pred ns) = qualifying_ids u ns"
  by (induction ns) (auto simp: qualifying_ids_def qualifies_def map_filter_simps split: option.splits)

lemma first_occurrences_remdups: "first_occurrences xs = rev (remdups (rev xs))"
proof (induction xs rule: rev_induct)
  case Nil
  then show ?case by simp
next
  case (snoc x xs)
  have app: "first_occurrences (ys @ [x]) = (if x \<in> set ys then first_occurrences ys else first_occurrences ys @ [x])" for ys
    by (induction ys) auto
  from snoc show ?case by (simp add: app)
qed

text \<open>
  Claim C7. The conversation ids of the summaries, in the order of the result, are the
  conversation ids of the qualifying notifications in input order with every repetition
  after the first removed. Nothing else orders the result.
\<close>

theorem processNotifications_order: "map conversationId (processNotifications ns u) = first_occurrences (qualifying_ids u ns)"
proof -
  let ?m = "foldl (forEach_body u) [] (filter filter_pred ns)"
  have "map_inv ?m" by (simp add: map_inv_foldl map_inv_Nil)
  then have "map conversationId (map_values ?m) = map fst ?m" by (rule map_inv_keys)
  also have "\<dots> = first_occurrences (qualifying_ids u (filter filter_pred ns))"
    using keys_foldl [of "filter filter_pred ns" u "[]"] by (simp add: list_all_iff)
  finally show ?thesis by (simp add: processNotifications_def qualifying_ids_filter)
qed

theorem processNotifications_order_witness:
  "qualifying_ids ada sample_notifications = [''c1'', ''c2'', ''c1'', ''c2'']
   \<and> map conversationId (processNotifications sample_notifications ada) = [''c1'', ''c2'']"
proof -
  have q: "qualifying_ids ada sample_notifications = [''c1'', ''c2'', ''c1'', ''c2'']"
    by code_simp
  with processNotifications_order [of sample_notifications ada] show ?thesis by simp
qed

section \<open>The handlers of the bar\<close>

lemma two_groups_participants:
  "participants two_groups =
     [\<lparr>conversationId = ''c1'', profileId = [], name = ''Team'', imageUrl = [],
       unreadCount = 1, conversationType = ''GROUP_MESSAGE''\<rparr>,
      \<lparr>conversationId = ''c2'', profileId = [], name = ''Group Chat'', imageUrl = [],
       unreadCount = 1, conversationType = ''GROUP_MESSAGE''\<rparr>]"
  by code_simp

text \<open>
  Claim C8. \<open>handleConversationMarkRead\<close> removes every participant of the given
  conversation, keeps every other participant in place, and changes nothing else of the
  state. When no participant matches, the state is unchanged, and so a second call with
  the same conversation id changes nothing.
\<close>

theorem marked_read_removes_and_is_idempotent:
  "(\<forall>p \<in> set (participants (handleConversationMarkRead d s)). conversationId p \<noteq> mr_conversationId d)
   \<and> (\<forall>p \<in> set (participants s). conversationId p \<noteq> mr_conversationId d \<longrightarrow>
         p \<in> set (participants (handleConversationMarkRead d s)))
   \<and> filter (\<lambda>p. conversationId p \<noteq> mr_conversationId d) (participants (handleConversationMarkRead d s))
       = filter (\<lambda>p. conversationId p \<noteq> mr_conversationId d) (participants s)
   \<and> ((\<forall>p \<in> set (participants s). conversationId p \<noteq> mr_conversationId d) \<longrightarrow>
         handleConversationMarkRead d s = s)
   \<and> handleConversationMarkRead d (handleConversationMarkRead d s) = handleConversationMarkRead d s
   \<and> (handleConversationMarkRead d s)\<lparr>participants := participants s\<rparr> = s"
proof -
  have noop: "(\<forall>p \<in> set (participants s). conversationId p \<noteq> mr_conversationId d) \<longrightarrow>
         handleConversationMarkRead d s = s"
  proof
    assume "\<forall>p \<in> set (participants s). conversationId p \<noteq> mr_conversationId d"
    then have "filter (\<lambda>p. conversationId p \<noteq> mr_conversationId d) (participants s) = participants s"
      by (simp add: filter_id_conv)
    then show "handleConversationMarkRead d s = s" by (simp add: handleConversationMarkRead_def)
  qed
  show ?thesis using noop by (simp add: handleConversationMarkRead_def)
qed

theorem marked_read_removes_and_is_idempotent_witness:
  "map conversationId (participants two_groups) = [''c1'', ''c2'']
   \<and> map conversationId (participants
        (handleConversationMarkRead \<lparr>mr_conversationId = ''c1'', mr_profileId = ''p0''\<rparr> two_groups)) = [''c2'']
   \<and> handleConversationMarkRead \<lparr>mr_conversationId = ''c1'', mr_profileId = ''p0''\<rparr>
        (handleConversationMarkRead \<lparr>mr_conversationId = ''c1'', mr_profileId = ''p0''\<rparr> two_groups)
       = handleConversationMarkRead \<lparr>mr_conversationId = ''c1'', mr_profileId = ''p0''\<rparr> two_groups
   \<and> handleConversationMarkRead \<lparr>mr_conversationId = ''c9'', mr_profileId = ''p0''\<rparr> two_groups = two_groups"
proof -
  let ?d1 = "\<lparr>mr_conversationId = ''c1'', mr_profileId = ''p0''\<rparr>"
  let ?d9 = "\<lparr>mr_conversationId = ''c9'', mr_profileId = ''p0''\<rparr>"
  have p: "map conversationId (participants two_groups) = [''c1'', ''c2'']"
    by (simp add: two_groups_participants)
  have q: "map conversationId (participants (handleConversationMarkRead ?d1 two_groups)) = [''c2'']"
    by (simp add: handleConversationMarkRead_def two_groups_participants)
  have none: "\<forall>p \<in> set (participants two_groups). conversationId p \<noteq> mr_conversationId ?d9"
    by (simp add: two_groups_participants)
  from marked_read_removes_and_is_idempotent [of ?d1 two_groups]
  have idem: "handleConversationMarkRead ?d1 (handleConversationMarkRead ?d1 two_groups)
       = handleConversationMarkRead ?d1 two_groups" by blast
  from marked_read_removes_and_is_idempotent [of ?d9 two_groups] none
  have noop: "handleConversationMarkRead ?d9 two_groups = two_groups" by blast
  from p q idem noop show ?thesis by blast
qed

text \<open>
  Claim C2. When \<open>handleConversationClick\<close> has passed its guard, the participant of the
  clicked conversation is gone at once. When its request then fails, by a response that
  is not \<open>ok\<close> or by a rejected \<open>fetch\<close>, with nothing else happening in between, the
  participants are exactly what \<open>processNotifications\<close> computes from the notifications
  and the user of the state in which the click happened; the guard is cleared and no
  request is pending any more.
\<close>

theorem failed_request_recovers_by_rebuild:
  assumes "clickingConversation s \<noteq> Some c" and "r = ResponseNotOk \<or> r = NetworkError"
  shows "participants (handleConversationClick c s) = filter (\<lambda>p. conversationId p \<noteq> c) (participants s)
       \<and> participants (fetch_settled (length (pending s)) r (handleConversationClick c s))
           = processNotifications (notifications s) (user s)
       \<and> fetch_settled (length (pending s)) r (handleConversationClick c s)
           = s\<lparr>participants := processNotifications (notifications s) (user s),
               clickingConversation := None, posted := posted s @ [c]\<rparr>"
  using assms by (auto simp: handleConversationClick_def fetch_settled_def Let_def)

theorem failed_request_recovers_by_rebuild_witness:
  "clickingConversation two_groups \<noteq> Some ''c1''
   \<and> map conversationId (participants (handleConversationClick ''c1'' two_groups)) = [''c2'']
   \<and> participants (fetch_settled (length (pending two_groups)) NetworkError
         (handleConversationClick ''c1'' two_groups))
       = processNotifications (notifications two_groups) (user two_groups)
   \<and> map conversationId (participants (fetch_settled (length (pending two_groups)) NetworkError
         (handleConversationClick ''c1'' two_groups))) = [''c1'', ''c2'']"
proof -
  have h: "clickingConversation two_groups \<noteq> Some ''c1''" by (simp add: two_groups_def mount_def)
  have a: "map conversationId (participants (handleConversationClick ''c1'' two_groups)) = [''c2'']"
    by code_simp
  have b: "map conversationId (processNotifications (notifications two_groups) (user two_groups)) = [''c1'', ''c2'']"
    by code_simp
  from failed_request_recovers_by_rebuild [OF h, of NetworkError] h a b
  show ?thesis by simp
qed

lemma guard_kept_step:
  "clickingConversation s = Some c \<Longrightarrow> keeps_guard c e \<Longrightarrow>
   clickingConversation (step s e) = Some c \<and> posted (step s e) = posted s \<and> pending (step s e) = pending s"
  by (cases e) (simp_all add: click_button_def handleConversationMarkRead_def notifications_changed_def)

lemma guard_kept_run:
  "clickingConversation s = Some c \<Longrightarrow> list_all (keeps_guard c) evs \<Longrightarrow>
   clickingConversation (run evs s) = Some c \<and> posted (run evs s) = posted s \<and> pending (run evs s) = pending s"
proof (induction evs arbitrary: s)
  case Nil
  then show ?case by (simp add: run_def)
next
  case (Cons e evs)
  from Cons.prems have e: "keeps_guard c e" and rest: "list_all (keeps_guard c) evs" by simp_all
  from guard_kept_step [OF Cons.prems(1) e]
  have g: "clickingConversation (step s e) = Some c" and p: "posted (step s e) = posted s"
    and q: "pending (step s e) = pending s" by simp_all
  from Cons.IH [OF g rest] p q show ?case by (simp add: run_def)
qed

lemma two_groups_guard: "clickingConversation two_groups = None"
  by (simp add: two_groups_def mount_def)

lemma opened_c1_participants: "map conversationId (participants opened_c1) = [''c2'']"
  by (simp add: opened_c1_def handleConversationClick_def two_groups_participants two_groups_guard)

lemma reshown_participants: "map conversationId (participants (run [NotificationsChanged (notifications two_groups) None] opened_c1)) = [''c1'', ''c2'']"
proof -
  have "processNotifications (notifications two_groups) None = participants two_groups"
    by (simp add: two_groups_def mount_def)
  then show ?thesis by (simp add: run_def notifications_changed_def two_groups_participants)
qed

lemma guard_after_click: "clickingConversation (handleConversationClick c s) = Some c"
  by (simp add: handleConversationClick_def)

lemma click_button_guarded: "clickingConversation s = Some c \<Longrightarrow> click_button c s = s"
  by (simp add: click_button_def)

lemma repeated_clicks_guarded:
  "clickingConversation s = Some c \<Longrightarrow> run (replicate k (Click c)) s = s"
  by (induction k) (simp_all add: run_def click_button_guarded)

text \<open>
  Claim C3, as the code has it. The guard is the single cell \<open>clickingConversation\<close>.
  While it holds a conversation id, a call of \<open>handleConversationClick\<close> for that id
  returns without any effect and the button of that conversation does nothing. A call
  that passes the guard sends one request and puts its id into the cell. The cell then
  keeps that id, and no request is sent and none settles, through every run of further
  clicks on the same conversation, \<open>conversation:marked-as-read\<close> messages and changes of
  the notifications or the user, also when such a change brings the button back. Only a
  click on another conversation or a settlement ends this: whenever a pending request
  settles, with whatever result, the cell is cleared.
\<close>

theorem guard_suppresses_while_held:
  "(clickingConversation s = Some c \<longrightarrow> handleConversationClick c s = s \<and> click_button c s = s)
   \<and> (clickingConversation s \<noteq> Some c \<longrightarrow>
        posted (handleConversationClick c s) = posted s @ [c]
        \<and> clickingConversation (handleConversationClick c s) = Some c)
   \<and> run (replicate k (Click c)) (handleConversationClick c s) = handleConversationClick c s
   \<and> (i < length (pending s) \<longrightarrow> clickingConversation (fetch_settled i r s) = None)
   \<and> clickingConversation (handleConversationMarkRead d s) = clickingConversation s
   \<and> clickingConversation (notifications_changed ns u s) = clickingConversation s
   \<and> (clickingConversation s = Some c \<and> list_all (keeps_guard c) evs \<longrightarrow>
        clickingConversation (run evs s) = Some c
        \<and> posted (run evs s) = posted s
        \<and> pending (run evs s) = pending s)
   \<and> (list_all (keeps_guard c) evs \<longrightarrow>
        posted (run evs (handleConversationClick c s)) = posted (handleConversationClick c s)
        \<and> clickingConversation (run evs (handleConversationClick c s)) = Some c)"
proof -
  have a: "run (replicate k (Click c)) (handleConversationClick c s) = handleConversationClick c s"
    by (rule repeated_clicks_guarded) (rule guard_after_click)
  have b: "i < length (pending s) \<longrightarrow> clickingConversation (fetch_settled i r s) = None"
    by (cases r) (simp_all add: fetch_settled_def Let_def)
  have c1: "clickingConversation s = Some c \<and> list_all (keeps_guard c) evs \<longrightarrow>
        clickingConversation (run evs s) = Some c
        \<and> posted (run evs s) = posted s
        \<and> pending (run evs s) = pending s"
    using guard_kept_run [of s c evs] by blast
  have c2: "list_all (keeps_guard c) evs \<longrightarrow>
        posted (run evs (handleConversationClick c s)) = posted (handleConversationClick c s)
        \<and> clickingConversation (run evs (handleConversationClick c s)) = Some c"
    using guard_kept_run [OF guard_after_click, of c evs s] by blast
  have d1: "clickingConversation (handleConversationMarkRead d s) = clickingConversation s"
    by (simp add: handleConversationMarkRead_def)
  have d2: "clickingConversation (notifications_changed ns u s) = clickingConversation s"
    by (simp add: notifications_changed_def)
  have e1: "clickingConversation s = Some c \<longrightarrow> handleConversationClick c s = s \<and> click_button c s = s"
    by (simp add: handleConversationClick_def click_button_def)
  have e2: "clickingConversation s \<noteq> Some c \<longrightarrow>
        posted (handleConversationClick c s) = posted s @ [c]
        \<and> clickingConversation (handleConversationClick c s) = Some c"
    by (simp add: handleConversationClick_def)
  from e1 e2 a b d1 d2 c1 c2 show ?thesis by blast
qed

theorem guard_suppresses_while_held_witness:
  "clickingConversation two_groups \<noteq> Some ''c1''
   \<and> posted opened_c1 = [''c1'']
   \<and> clickingConversation opened_c1 = Some ''c1''
   \<and> handleConversationClick ''c1'' opened_c1 = opened_c1
   \<and> click_button ''c1'' opened_c1 = opened_c1
   \<and> run (replicate 3 (Click ''c1'')) opened_c1 = opened_c1
   \<and> 0 < length (pending opened_c1)
   \<and> clickingConversation (fetch_settled 0 ResponseOk opened_c1) = None
   \<and> map conversationId (participants opened_c1) = [''c2'']
   \<and> map conversationId
        (participants (run [NotificationsChanged (notifications two_groups) None] opened_c1)) = [''c1'', ''c2'']
   \<and> list_all (keeps_guard ''c1'') reshown
   \<and> clickingConversation (run reshown opened_c1) = Some ''c1''
   \<and> posted (run reshown opened_c1) = [''c1'']
   \<and> pending (run reshown opened_c1) = pending opened_c1"
proof -
  have h: "clickingConversation two_groups \<noteq> Some ''c1''" by (simp add: two_groups_guard)
  have p0: "posted two_groups = []" by (simp add: two_groups_def mount_def)
  have g: "clickingConversation opened_c1 = Some ''c1''"
    by (simp add: opened_c1_def handleConversationClick_def)
  have l: "0 < length (pending opened_c1)"
    using h by (simp add: opened_c1_def handleConversationClick_def)
  have k: "list_all (keeps_guard ''c1'') reshown" by (simp add: reshown_def)
  from guard_suppresses_while_held [of two_groups "''c1''" 3 0 ResponseOk]
  have first: "posted (handleConversationClick ''c1'' two_groups) = posted two_groups @ [''c1'']"
    using h by blast
  from guard_suppresses_while_held [of opened_c1 "''c1''" 3 0 ResponseOk _ _ _ reshown] g l k
  have held: "handleConversationClick ''c1'' opened_c1 = opened_c1"
    and button: "click_button ''c1'' opened_c1 = opened_c1"
    and settled: "clickingConversation (fetch_settled 0 ResponseOk opened_c1) = None"
    and kept: "clickingConversation (run reshown opened_c1) = Some ''c1''"
    and quiet: "posted (run reshown opened_c1) = posted opened_c1"
    and same: "pending (run reshown opened_c1) = pending opened_c1"
    by blast+
  from guard_suppresses_while_held [of two_groups "''c1''" 3]
  have rep: "run (replicate 3 (Click ''c1'')) opened_c1 = opened_c1"
    unfolding opened_c1_def by blast
  from first p0 have p1: "posted opened_c1 = [''c1'']" by (simp add: opened_c1_def)
  from h p1 g held button rep l settled opened_c1_participants reshown_participants k kept quiet same show ?thesis by simp
qed

text \<open>
  The guard does not cover every outstanding request. From two unread group
  conversations \<open>c1\<close> and \<open>c2\<close>: open \<open>c1\<close>, open \<open>c2\<close>, let the request for \<open>c2\<close> fail.
  The request for \<open>c1\<close> is still pending, the button of \<open>c1\<close> is back and enabled, and a
  click on it sends a second request for \<open>c1\<close>.
\<close>

theorem guard_single_slot_counterexample:
  "''c1'' \<in> set (map pr_conversationId (pending interleaved))
   \<and> ''c1'' \<in> set (map conversationId (participants interleaved))
   \<and> posted interleaved = [''c1'', ''c2'']
   \<and> posted (click_button ''c1'' interleaved) = [''c1'', ''c2'', ''c1'']
   \<and> map pr_conversationId (pending (click_button ''c1'' interleaved)) = [''c1'', ''c1'']"
  by code_simp

lemma pushed_step: "(\<forall>i. e \<noteq> Settle i ResponseOk) \<Longrightarrow> pushed (step s e) = pushed s"
proof (cases e)
  case (Click c)
  then show ?thesis by (simp add: click_button_def handleConversationClick_def)
next
  case (Settle i r)
  assume "\<forall>i. e \<noteq> Settle i ResponseOk"
  with Settle have "r \<noteq> ResponseOk" by auto
  with Settle show ?thesis by (cases r) (simp_all add: fetch_settled_def Let_def)
next
  case (MarkedRead d)
  then show ?thesis by (simp add: handleConversationMarkRead_def)
next
  case (NotificationsChanged ns u)
  then show ?thesis by (simp add: notifications_changed_def)
qed

lemma pushed_run:
  "(\<forall>e \<in> set evs. \<forall>i. e \<noteq> Settle i ResponseOk) \<Longrightarrow> pushed (run evs s) = pushed s"
  unfolding run_def
  by (induction evs arbitrary: s) (simp_all add: pushed_step)

text \<open>
  Claim C9. \<open>router.push\<close> is called only when a request settles with a response that is
  \<open>ok\<close>, and then with the path of that request's conversation. Sending the request
  navigates nowhere, a response that is not \<open>ok\<close> or a rejected \<open>fetch\<close> navigates nowhere,
  and a run of events without a successful settlement leaves the list of pushed paths as
  it was.
\<close>

theorem navigation_only_after_success:
  "pushed (handleConversationClick c s) = pushed s
   \<and> pushed (fetch_settled i ResponseNotOk s) = pushed s
   \<and> pushed (fetch_settled i NetworkError s) = pushed s
   \<and> (i < length (pending s) \<longrightarrow>
        pushed (fetch_settled i ResponseOk s) = pushed s @ [''/conversations/'' @ pr_conversationId (pending s ! i)])
   \<and> ((\<forall>e \<in> set evs. \<forall>j. e \<noteq> Settle j ResponseOk) \<longrightarrow> pushed (run evs s) = pushed s)"
  using pushed_run [of evs s]
  by (simp add: handleConversationClick_def fetch_settled_def Let_def)

theorem navigation_only_after_success_witness:
  "pushed opened_c1 = []
   \<and> pushed (fetch_settled 0 ResponseOk opened_c1) = [''/conversations/c1'']
   \<and> pushed (fetch_settled 0 ResponseNotOk opened_c1) = []
   \<and> pushed (fetch_settled 0 NetworkError opened_c1) = []
   \<and> pushed (run [Click ''c2'', Settle 0 NetworkError, Settle 0 ResponseNotOk] opened_c1) = []"
proof -
  have p0: "pushed two_groups = []" by (simp add: two_groups_def mount_def)
  have h: "clickingConversation two_groups \<noteq> Some ''c1''" by (simp add: two_groups_def mount_def)
  have l: "0 < length (pending opened_c1)"
    using h by (simp add: opened_c1_def handleConversationClick_def)
  have c: "pr_conversationId (pending opened_c1 ! 0) = ''c1''" by code_simp
  have e: "\<forall>e \<in> set [Click ''c2'', Settle 0 NetworkError, Settle 0 ResponseNotOk]. \<forall>j. e \<noteq> Settle j ResponseOk"
    by simp
  from navigation_only_after_success [of "''c1''" two_groups 0 "[]"]
       navigation_only_after_success
         [of "''c1''" opened_c1 0 "[Click ''c2'', Settle 0 NetworkError, Settle 0 ResponseNotOk]"]
       p0 l c e
  show ?thesis by (simp add: opened_c1_def)
qed

section \<open>The unread counter\<close>

lemma nav_step_nonneg: "0 \<le> nav_unreadCount s \<Longrightarrow> 0 \<le> nav_unreadCount (nav_step s call)"
  by (cases call) (auto simp: markAsRead_def markAllAsRead_def split: fetch_result.splits)

lemma nav_run_nonneg: "0 \<le> nav_unreadCount s \<Longrightarrow> 0 \<le> nav_unreadCount (nav_run calls s)"
  unfolding nav_run_def
  by (induction calls arbitrary: s) (simp_all add: nav_step_nonneg)

text \<open>
  Claim C10. The unread counter of the top navigation bar does not become negative.
  A \<open>markAsRead\<close> whose request resolves sets the counter to the maximum of zero and
  the old counter minus one: it decrements a positive counter by exactly one and gives
  zero from zero or below. A \<open>markAllAsRead\<close> whose request resolves gives zero. A call
  whose request is rejected leaves the state as it was. So from a counter that is at
  least zero, every sequence of \<open>markAsRead\<close> and \<open>markAllAsRead\<close> calls, each with any
  outcome of its request, ends with a counter that is at least zero.
\<close>

theorem unread_counter_never_negative:
  "(0 \<le> nav_unreadCount s \<longrightarrow> 0 \<le> nav_unreadCount (nav_run calls s))
   \<and> (r \<noteq> NetworkError \<longrightarrow> 0 \<le> nav_unreadCount (markAsRead i r s))
   \<and> (r \<noteq> NetworkError \<longrightarrow> nav_unreadCount (markAllAsRead r s) = 0)
   \<and> (nav_unreadCount s = 0 \<longrightarrow> nav_unreadCount (markAsRead i r s) = 0)
   \<and> (r \<noteq> NetworkError \<longrightarrow> nav_unreadCount (markAsRead i r s) = max 0 (nav_unreadCount s - 1))
   \<and> (r \<noteq> NetworkError \<and> 0 < nav_unreadCount s \<longrightarrow>
        nav_unreadCount (markAsRead i r s) = nav_unreadCount s - 1)
   \<and> (r \<noteq> NetworkError \<and> nav_unreadCount s \<le> 0 \<longrightarrow> nav_unreadCount (markAsRead i r s) = 0)
   \<and> markAsRead i NetworkError s = s
   \<and> markAllAsRead NetworkError s = s"
  using nav_run_nonneg [of s calls]
  by (cases r) (simp_all add: markAsRead_def markAllAsRead_def)

theorem unread_counter_never_negative_witness:
  "nav_unreadCount three_unread = 3
   \<and> nav_unreadCount (markAsRead ''n1'' ResponseOk three_unread) = 2
   \<and> nav_unreadCount (markAsRead ''n1'' ResponseNotOk three_unread) = 2
   \<and> nav_unreadCount (markAsRead ''n1'' NetworkError three_unread) = 3
   \<and> nav_unreadCount (markAllAsRead ResponseOk three_unread) = 0
   \<and> nav_unreadCount (markAsRead ''n1'' ResponseOk empty_nav) = 0
   \<and> 0 \<le> nav_unreadCount
        (nav_run [MarkAsRead ''n1'' ResponseOk, MarkAsRead ''n2'' NetworkError, MarkAsRead ''n2'' ResponseOk,
                  MarkAsRead ''n3'' ResponseOk, MarkAsRead ''n4'' ResponseNotOk, MarkAllAsRead ResponseNotOk,
                  MarkAsRead ''n5'' ResponseNotOk] three_unread)
   \<and> nav_unreadCount
        (nav_run [MarkAsRead ''n1'' ResponseOk, MarkAsRead ''n2'' NetworkError, MarkAsRead ''n2'' ResponseOk,
                  MarkAsRead ''n3'' ResponseOk, MarkAsRead ''n4'' ResponseNotOk] three_unread) = 0"
proof -
  let ?calls = "[MarkAsRead ''n1'' ResponseOk, MarkAsRead ''n2'' NetworkError, MarkAsRead ''n2'' ResponseOk,
                  MarkAsRead ''n3'' ResponseOk, MarkAsRead ''n4'' ResponseNotOk, MarkAllAsRead ResponseNotOk,
                  MarkAsRead ''n5'' ResponseNotOk]"
  have t: "nav_unreadCount three_unread = 3" by (simp add: three_unread_def)
  have z: "nav_unreadCount empty_nav = 0" by (simp add: empty_nav_def)
  have seq: "nav_unreadCount
        (nav_run [MarkAsRead ''n1'' ResponseOk, MarkAsRead ''n2'' NetworkError, MarkAsRead ''n2'' ResponseOk,
                  MarkAsRead ''n3'' ResponseOk, MarkAsRead ''n4'' ResponseNotOk] three_unread) = 0"
    by (simp add: nav_run_def markAsRead_def three_unread_def)
  from unread_counter_never_negative [of three_unread ?calls ResponseOk "''n1''"]
       unread_counter_never_negative [of three_unread ?calls ResponseNotOk "''n1''"]
       unread_counter_never_negative [of empty_nav ?calls ResponseOk "''n1''"]
       t z seq
  show ?thesis by simp
qed

end
